theory Spec2Isabelle
  imports Complex_Main "HOL-Library.Sublist"
begin

section \<open>Python values, exceptions and the random source\<close>

text \<open>
  A Python \<open>str\<close> is a sequence of Unicode code points. The texts and the alphabets of
  \<open>CharacterNoiseFunctions.py\<close> hold Devanagari and dotted Latin letters, so a character is
  its code point and a text is a list of code points. The names of tiers and languages are
  plain ASCII words and are kept as HOL strings.
\<close>

type_synonym codepoint = nat
type_synonym pystr = "codepoint list"

definition str :: "string \<Rightarrow> pystr" where
  "str s = map of_char s"

text \<open>The argument \<open>text\<close> of \<open>add_char_noise\<close>: a \<open>str\<close>, or any other object.\<close>

datatype pyobj = PyStr pystr | PyOther

text \<open>The exceptions the two modules raise, and those of the library calls they make.\<close>

datatype error = TypeError | ValueError | IndexError | FileNotFoundError | IOError | CvError

datatype operation = Substitute | Delete | Insert | Swap

text \<open>
  What a call can observe or change outside its arguments: the random source and the
  console. The random source is a tape of naturals read left to right; \<open>draws\<close> counts the
  reads, so a call that made no random draw leaves it as it was. \<open>printed\<close> holds the
  warnings of the \<open>except\<close> handler of the application loop (operation, index, exception).
\<close>

record world =
  tape :: "nat \<Rightarrow> nat"
  draws :: nat
  printed :: "(operation \<times> nat \<times> error) list"

definition next_draw :: "world \<Rightarrow> nat \<times> world" where
  "next_draw w = (tape w (draws w), w\<lparr>draws := Suc (draws w)\<rparr>)"

text \<open>\<open>random.choice(seq)\<close>: IndexError on an empty sequence, else one of its elements.\<close>

definition random_choice :: "'a list \<Rightarrow> world \<Rightarrow> (error + 'a) \<times> world" where
  "random_choice seq w =
     (if seq = [] then (Inl IndexError, w)
      else (case next_draw w of (r, w') \<Rightarrow> (Inr (seq ! (r mod length seq)), w')))"

text \<open>
  \<open>random.sample(population, k)\<close>: ValueError when \<open>k\<close> exceeds the population, else \<open>k\<close>
  elements at distinct positions, each drawn from what is left of the population.
\<close>

fun sample_from :: "'a list \<Rightarrow> nat \<Rightarrow> world \<Rightarrow> 'a list \<times> world" where
  "sample_from pool 0 w = ([], w)"
| "sample_from pool (Suc k) w =
     (case next_draw w of (r, w') \<Rightarrow>
        (case sample_from (take (r mod length pool) pool @ drop (Suc (r mod length pool)) pool) k w' of
           (rest, w'') \<Rightarrow> (pool ! (r mod length pool) # rest, w'')))"

definition random_sample :: "'a list \<Rightarrow> nat \<Rightarrow> world \<Rightarrow> (error + 'a list) \<times> world" where
  "random_sample population k w =
     (if length population < k then (Inl ValueError, w)
      else (case sample_from population k w of (xs, w') \<Rightarrow> (Inr xs, w')))"

text \<open>\<open>text[i]\<close> for a non-negative \<open>i\<close>: IndexError past the end.\<close>

definition py_index :: "'a list \<Rightarrow> nat \<Rightarrow> error + 'a" where
  "py_index xs i = (if i < length xs then Inr (xs ! i) else Inl IndexError)"

text \<open>\<open>str.lower()\<close> on an ASCII word.\<close>

definition ascii_uppercase :: string where
  "ascii_uppercase = ''ABCDEFGHIJKLMNOPQRSTUVWXYZ''"

definition ascii_lowercase :: string where
  "ascii_lowercase = ''abcdefghijklmnopqrstuvwxyz''"

definition lower_char :: "char \<Rightarrow> char" where
  "lower_char c = (case map_of (zip ascii_uppercase ascii_lowercase) c of Some l \<Rightarrow> l | None \<Rightarrow> c)"

definition lower :: "string \<Rightarrow> string" where
  "lower s = map lower_char s"

section \<open>CharacterNoiseFunctions.py\<close>

text \<open>
  The two tables of the module. Python floats are read as the real numbers their literals
  denote; floating-point rounding is not modelled.
\<close>

definition NOISE_LEVEL_PERCENTAGES :: "string \<rightharpoonup> real" where
  "NOISE_LEVEL_PERCENTAGES = [''low'' \<mapsto> 0.05, ''medium'' \<mapsto> 0.15, ''high'' \<mapsto> 0.25]"

definition english_alphabet :: pystr where
  "english_alphabet =
     str (ascii_lowercase @ ascii_uppercase) @ str ''0123456789''
     @ [33..<48] @ [58..<65] @ [91..<97] @ [123..<127] @ [32]"

definition hindi_alphabet :: pystr where
  "hindi_alphabet =
     [2309, 2310, 2311, 2312, 2313, 2314, 2319, 2320, 2323, 2324, 2325, 2326, 2327, 2328,
      2330, 2331, 2332, 2333, 2335, 2336, 2337, 2338, 2340, 2341, 2342, 2343, 2344, 2346,
      2347, 2348, 2349, 2350, 2351, 2352, 2354, 2357, 2358, 2359, 2360, 2361]
     @ [46, 44, 33, 63, 39, 32]"

definition igbo_alphabet :: pystr where
  "igbo_alphabet =
     str (ascii_lowercase @ ascii_uppercase) @ str ''0123456789'' @ [32, 46, 44, 33, 63, 39]
     @ [7883, 7882, 7885, 7884, 7909, 7908, 7749, 7748]"

definition ALPHABETS :: "string \<rightharpoonup> pystr" where
  "ALPHABETS = [''english'' \<mapsto> english_alphabet, ''hindi'' \<mapsto> hindi_alphabet,
                ''igbo'' \<mapsto> igbo_alphabet]"

definition operations :: "operation list" where
  "operations = [Substitute, Delete, Insert, Swap]"

text \<open>
  \<open>for idx in indices_to_modify: modifications[idx] = random.choice(operations)\<close>
\<close>

fun assign_operations ::
  "nat list \<Rightarrow> (nat \<rightharpoonup> operation) \<Rightarrow> world \<Rightarrow> (error + (nat \<rightharpoonup> operation)) \<times> world" where
  "assign_operations [] modifications w = (Inr modifications, w)"
| "assign_operations (idx # rest) modifications w =
     (case random_choice operations w of
        (Inl e, w') \<Rightarrow> (Inl e, w')
      | (Inr operation, w') \<Rightarrow> assign_operations rest (modifications(idx \<mapsto> operation)) w')"

text \<open>The variables of the application loop: the output so far, the indices a swap has
  handled, and the loop index \<open>i\<close>.\<close>

record loop_state =
  new_text_list :: pystr
  processed_indices :: "nat set"
  loop_i :: nat

text \<open>
  The retry loop of a substitution:
  \<open>while new_char == original_char and len(alphabet) > 1 and attempts < 5\<close>.
\<close>

function substitute_retry ::
  "codepoint \<Rightarrow> pystr \<Rightarrow> codepoint \<Rightarrow> nat \<Rightarrow> world \<Rightarrow> (error + codepoint) \<times> world" where
  "substitute_retry original_char alphabet new_char attempts w =
     (if new_char = original_char \<and> 1 < length alphabet \<and> attempts < 5
      then (case random_choice alphabet w of
              (Inl e, w') \<Rightarrow> (Inl e, w')
            | (Inr c, w') \<Rightarrow> substitute_retry original_char alphabet c (attempts + 1) w')
      else (Inr new_char, w))"
  by pat_completeness auto
termination
  by (relation "measure (\<lambda>(original_char, alphabet, new_char, attempts, w). 5 - attempts)") auto

text \<open>
  The body of the \<open>try\<close>: one planned operation at index \<open>i\<close>. The result is the exception
  raised, if any, with the loop variables and the world as they stand at that moment (an
  append made before the raise stays made).
\<close>

definition try_operation ::
  "pystr \<Rightarrow> pystr \<Rightarrow> operation \<Rightarrow> loop_state \<Rightarrow> world \<Rightarrow> error option \<times> loop_state \<times> world" where
  "try_operation text alphabet operation s w =
     (case operation of
        Delete \<Rightarrow> (None, s\<lparr>loop_i := loop_i s + 1\<rparr>, w)
      | Substitute \<Rightarrow>
          (case py_index text (loop_i s) of
             Inl e \<Rightarrow> (Some e, s, w)
           | Inr original_char \<Rightarrow>
               (case random_choice alphabet w of
                  (Inl e, w1) \<Rightarrow> (Some e, s, w1)
                | (Inr new_char, w1) \<Rightarrow>
                    (case substitute_retry original_char alphabet new_char 0 w1 of
                       (Inl e, w2) \<Rightarrow> (Some e, s, w2)
                     | (Inr c, w2) \<Rightarrow>
                         (None, s\<lparr>new_text_list := new_text_list s @ [c],
                                  loop_i := loop_i s + 1\<rparr>, w2))))
      | Insert \<Rightarrow>
          (case random_choice alphabet w of
             (Inl e, w1) \<Rightarrow> (Some e, s, w1)
           | (Inr random_char, w1) \<Rightarrow>
               (case py_index text (loop_i s) of
                  Inl e \<Rightarrow> (Some e, s\<lparr>new_text_list := new_text_list s @ [random_char]\<rparr>, w1)
                | Inr c \<Rightarrow>
                    (None, s\<lparr>new_text_list := new_text_list s @ [random_char, c],
                             loop_i := loop_i s + 1\<rparr>, w1)))
      | Swap \<Rightarrow>
          (if loop_i s + 1 < length text
           then (case py_index text (loop_i s + 1) of
                   Inl e \<Rightarrow> (Some e, s, w)
                 | Inr c1 \<Rightarrow>
                     (case py_index text (loop_i s) of
                        Inl e \<Rightarrow> (Some e, s\<lparr>new_text_list := new_text_list s @ [c1]\<rparr>, w)
                      | Inr c0 \<Rightarrow>
                          (None, s\<lparr>new_text_list := new_text_list s @ [c1, c0],
                                   processed_indices := insert (loop_i s + 1) (processed_indices s),
                                   loop_i := loop_i s + 2\<rparr>, w)))
           else (case py_index text (loop_i s) of
                   Inl e \<Rightarrow> (Some e, s, w)
                 | Inr c \<Rightarrow>
                     (None, s\<lparr>new_text_list := new_text_list s @ [c],
                              loop_i := loop_i s + 1\<rparr>, w))))"

text \<open>
  One iteration of \<open>while i < original_text_len\<close>. The \<open>except\<close> handler prints a warning,
  appends \<open>text[i]\<close> unless \<open>i\<close> is marked as handled, and moves on; an exception raised
  outside the \<open>try\<close> leaves the function.
\<close>

definition loop_body ::
  "pystr \<Rightarrow> pystr \<Rightarrow> (nat \<rightharpoonup> operation) \<Rightarrow> loop_state \<Rightarrow> world \<Rightarrow> (error + loop_state) \<times> world" where
  "loop_body text alphabet modifications s w =
     (if loop_i s \<in> processed_indices s then (Inr (s\<lparr>loop_i := loop_i s + 1\<rparr>), w)
      else (case modifications (loop_i s) of
              None \<Rightarrow>
                (case py_index text (loop_i s) of
                   Inl e \<Rightarrow> (Inl e, w)
                 | Inr c \<Rightarrow>
                     (Inr (s\<lparr>new_text_list := new_text_list s @ [c], loop_i := loop_i s + 1\<rparr>), w))
            | Some operation \<Rightarrow>
                (case try_operation text alphabet operation s w of
                   (None, s', w') \<Rightarrow> (Inr s', w')
                 | (Some e, s', w') \<Rightarrow>
                     (if loop_i s' \<in> processed_indices s'
                      then (Inr (s'\<lparr>loop_i := loop_i s' + 1\<rparr>),
                            w'\<lparr>printed := printed w' @ [(operation, loop_i s', e)]\<rparr>)
                      else (case py_index text (loop_i s') of
                              Inl e2 \<Rightarrow>
                                (Inl e2, w'\<lparr>printed := printed w' @ [(operation, loop_i s', e)]\<rparr>)
                            | Inr c \<Rightarrow>
                                (Inr (s'\<lparr>new_text_list := new_text_list s' @ [c],
                                         loop_i := loop_i s' + 1\<rparr>),
                                 w'\<lparr>printed := printed w' @ [(operation, loop_i s', e)]\<rparr>))))))"

lemma try_operation_advances:
  "try_operation text alphabet operation s w = (r, s', w') \<Longrightarrow> loop_i s \<le> loop_i s'"
  by (auto simp: try_operation_def split: operation.splits sum.splits prod.splits if_splits)

lemma try_operation_done_advances:
  "try_operation text alphabet operation s w = (None, s', w') \<Longrightarrow> loop_i s < loop_i s'"
  by (auto simp: try_operation_def split: operation.splits sum.splits prod.splits if_splits)

lemma loop_body_advances:
  "loop_body text alphabet modifications s w = (Inr s', w') \<Longrightarrow> loop_i s < loop_i s'"
  by (auto simp: loop_body_def split: option.splits sum.splits prod.splits if_splits
           dest: try_operation_advances try_operation_done_advances)

text \<open>The loop \<open>while i < original_text_len\<close>.\<close>

function walk ::
  "pystr \<Rightarrow> pystr \<Rightarrow> (nat \<rightharpoonup> operation) \<Rightarrow> loop_state \<Rightarrow> world \<Rightarrow> (error + loop_state) \<times> world" where
  "walk text alphabet modifications s w =
     (if loop_i s < length text
      then (case loop_body text alphabet modifications s w of
              (Inl e, w') \<Rightarrow> (Inl e, w')
            | (Inr s', w') \<Rightarrow> walk text alphabet modifications s' w')
      else (Inr s, w))"
  by pat_completeness auto
termination
  apply (relation "measure (\<lambda>(text, alphabet, modifications, s, w). length text - loop_i s)")
   apply simp
  apply (auto dest!: loop_body_advances[OF sym])
  done

declare walk.simps [simp del]

declare substitute_retry.simps [simp del]

text \<open>
  The block \<open>Calculate Modifications\<close> of \<open>add_char_noise\<close>, after the count is known:
  \<open>indices_to_modify = sorted(random.sample(range(original_text_len), num_chars_to_modify))\<close>
  and the assignment of one operation to each index.
\<close>

definition calculate_modifications ::
  "nat \<Rightarrow> nat \<Rightarrow> world \<Rightarrow> (error + (nat \<rightharpoonup> operation)) \<times> world" where
  "calculate_modifications original_text_len num_chars_to_modify w =
     (case random_sample [0..<original_text_len] num_chars_to_modify w of
        (Inl e, w1) \<Rightarrow> (Inl e, w1)
      | (Inr indices, w1) \<Rightarrow> assign_operations (sort indices) Map.empty w1)"

text \<open>
  The block \<open>Apply Modifications\<close>: the loop, started with an empty output, no handled
  index and \<open>i = 0\<close>, and the final \<open>"".join(new_text_list)\<close>.
\<close>

definition initial_state :: loop_state where
  "initial_state = \<lparr>new_text_list = [], processed_indices = {}, loop_i = 0\<rparr>"

definition apply_modifications ::
  "pystr \<Rightarrow> pystr \<Rightarrow> (nat \<rightharpoonup> operation) \<Rightarrow> world \<Rightarrow> (error + pystr) \<times> world" where
  "apply_modifications text alphabet modifications w =
     (case walk text alphabet modifications initial_state w of
        (Inl e, w') \<Rightarrow> (Inl e, w')
      | (Inr s, w') \<Rightarrow> (Inr (new_text_list s), w'))"

text \<open>
  \<open>add_char_noise(text, noise_level, language)\<close>. The module global \<open>ALPHABETS\<close> is read
  when the function is called and the module invites callers to add alphabets to it, so the
  table is the argument \<open>alphabets\<close>; the table the module ships is \<^const>\<open>ALPHABETS\<close>.
\<close>

definition add_char_noise ::
  "(string \<rightharpoonup> pystr) \<Rightarrow> pyobj \<Rightarrow> string \<Rightarrow> string \<Rightarrow> world \<Rightarrow> (error + pystr) \<times> world" where
  "add_char_noise alphabets text_arg noise_level language w =
     (case text_arg of
        PyOther \<Rightarrow> (Inl TypeError, w)
      | PyStr text \<Rightarrow>
          (if length text = 0 then (Inr [], w)
           else (case NOISE_LEVEL_PERCENTAGES (lower noise_level) of
                   None \<Rightarrow> (Inl ValueError, w)
                 | Some percentage \<Rightarrow>
                     (case alphabets (lower language) of
                        None \<Rightarrow> (Inl ValueError, w)
                      | Some alphabet \<Rightarrow>
                          (if alphabet = [] then (Inl ValueError, w)
                           else if nat \<lfloor>percentage * real (length text)\<rfloor> = 0 then (Inr text, w)
                           else (case calculate_modifications (length text)
                                        (nat \<lfloor>percentage * real (length text)\<rfloor>) w of
                                   (Inl e, w2) \<Rightarrow> (Inl e, w2)
                                 | (Inr modifications, w2) \<Rightarrow>
                                     apply_modifications text alphabet modifications w2))))))"

section \<open>ImageNoiseFunctions.py\<close>

text \<open>
  A NumPy array is its shape and its samples, addressed by index tuples (\<open>[y, x]\<close> for a
  grayscale image, \<open>[y, x, c]\<close> for a colour one). Samples are real numbers: the dtype of a
  buffer, and the rounding and saturation of a value written into it, are not modelled.
\<close>

record ndarray =
  shape :: "nat list"
  data :: "nat list \<Rightarrow> real"

definition ndim :: "ndarray \<Rightarrow> nat" where
  "ndim a = length (shape a)"

definition size_of :: "ndarray \<Rightarrow> nat" where
  "size_of a = prod_list (shape a)"

text \<open>
  Arrays are objects: a caller and a function may hold the same array, and OpenCV draws into
  the array it is given. The store maps references to arrays; \<open>next_free\<close> is the reference
  the next new array gets.
\<close>

record heap =
  cells :: "nat \<Rightarrow> ndarray"
  next_free :: nat

definition alloc :: "ndarray \<Rightarrow> heap \<Rightarrow> nat \<times> heap" where
  "alloc a h = (next_free h, h\<lparr>cells := (cells h)(next_free h := a), next_free := Suc (next_free h)\<rparr>)"

text \<open>The argument \<open>img_input\<close>: a path, (a reference to) an array, or any other object.\<close>

datatype img_input = Path string | Array nat | NotAnImage

text \<open>
  What the module uses of its surroundings: the file system, OpenCV's decoder and OpenCV's
  Gaussian filter, which returns a new array.
\<close>

record env =
  os_path_exists :: "string \<Rightarrow> bool"
  cv_imread :: "string \<Rightarrow> ndarray option"
  cv_GaussianBlur :: "ndarray \<Rightarrow> real \<Rightarrow> real \<Rightarrow> ndarray"

text \<open>The two checks at the end of \<open>_load_image\<close>, on the array at reference \<open>r\<close>.\<close>

definition validate_image :: "nat \<Rightarrow> heap \<Rightarrow> (error + nat) \<times> heap" where
  "validate_image r h =
     (if \<not> (ndim (cells h r) = 2 \<or> ndim (cells h r) = 3) then (Inl ValueError, h)
      else if size_of (cells h r) = 0 then (Inl ValueError, h)
      else (Inr r, h))"

text \<open>\<open>_load_image(img_input)\<close>: \<open>cv.imread\<close> makes a new array, \<open>img_input.copy()\<close> too.\<close>

definition load_image :: "env \<Rightarrow> img_input \<Rightarrow> heap \<Rightarrow> (error + nat) \<times> heap" where
  "load_image e img_input h =
     (case img_input of
        Path p \<Rightarrow>
          (if \<not> os_path_exists e p then (Inl FileNotFoundError, h)
           else (case cv_imread e p of
                   None \<Rightarrow> (Inl IOError, h)
                 | Some img \<Rightarrow> (case alloc img h of (r, h') \<Rightarrow> validate_image r h')))
      | Array r0 \<Rightarrow> (case alloc (cells h r0) h of (r, h') \<Rightarrow> validate_image r h')
      | NotAnImage \<Rightarrow> (Inl TypeError, h))"

text \<open>The \<open>match blur_level\<close> statement of \<open>apply_gaussian_blur\<close>.\<close>

definition blur_sigma :: "string \<Rightarrow> error + real" where
  "blur_sigma blur_level =
     (if blur_level = ''low'' then Inr 1.0
      else if blur_level = ''medium'' then Inr 3.0
      else if blur_level = ''high'' then Inr 6.0
      else Inl ValueError)"

definition apply_gaussian_blur :: "env \<Rightarrow> img_input \<Rightarrow> string \<Rightarrow> heap \<Rightarrow> (error + nat) \<times> heap" where
  "apply_gaussian_blur e img_input blur_level h =
     (case load_image e img_input h of
        (Inl err, h1) \<Rightarrow> (Inl err, h1)
      | (Inr img, h1) \<Rightarrow>
          (case blur_sigma blur_level of
             Inl err \<Rightarrow> (Inl err, h1)
           | Inr sigma \<Rightarrow>
               (case alloc (cv_GaussianBlur e (cells h1 img) sigma sigma) h1 of
                  (blurred_img, h2) \<Rightarrow> (Inr blurred_img, h2))))"

text \<open>The \<open>match occlusion_level\<close> statement of \<open>apply_occlusion\<close>.\<close>

definition occlusion_ratio :: "string \<Rightarrow> error + real" where
  "occlusion_ratio occlusion_level =
     (if occlusion_level = ''low'' then Inr 0.08
      else if occlusion_level = ''medium'' then Inr 0.20
      else if occlusion_level = ''high'' then Inr 0.40
      else Inl ValueError)"

text \<open>\<open>np.random.randint(low, high)\<close>: ValueError unless \<open>low < high\<close>, else a value in
  \<open>[low, high)\<close>.\<close>

definition np_random_randint :: "nat \<Rightarrow> nat \<Rightarrow> world \<Rightarrow> (error + nat) \<times> world" where
  "np_random_randint low high w =
     (if high \<le> low then (Inl ValueError, w)
      else (case next_draw w of (r, w') \<Rightarrow> (Inr (low + r mod (high - low)), w')))"

text \<open>
  The geometry of the patch, lines 104 to 121 of the module: the dimensions
  \<open>int(np.sqrt(ratio) * dimension)\<close> raised to at least 1, the largest offsets, the two
  draws (first \<open>start_y\<close>, then \<open>start_x\<close>) and the end coordinates.
\<close>

record patch =
  patch_h :: nat
  patch_w :: nat
  start_y :: nat
  start_x :: nat
  end_y :: nat
  end_x :: nat

definition occlusion_patch :: "real \<Rightarrow> nat \<Rightarrow> nat \<Rightarrow> world \<Rightarrow> (error + patch) \<times> world" where
  "occlusion_patch ratio img_height img_width w =
     (let ph = max 1 (nat \<lfloor>sqrt ratio * real img_height\<rfloor>);
          pw = max 1 (nat \<lfloor>sqrt ratio * real img_width\<rfloor>);
          max_y = nat (max 0 (int img_height - int ph));
          max_x = nat (max 0 (int img_width - int pw))
      in (case np_random_randint 0 (max_y + 1) w of
            (Inl err, w1) \<Rightarrow> (Inl err, w1)
          | (Inr sy, w1) \<Rightarrow>
              (case np_random_randint 0 (max_x + 1) w1 of
                 (Inl err, w2) \<Rightarrow> (Inl err, w2)
               | (Inr sx, w2) \<Rightarrow>
                   (Inr \<lparr>patch_h = ph, patch_w = pw, start_y = sy, start_x = sx,
                         end_y = sy + ph, end_x = sx + pw\<rparr>, w2))))"

text \<open>
  The two OpenCV calls of \<open>apply_occlusion\<close>, after OpenCV's documentation. An image has one
  channel when it is 2-D and \<open>shape[2]\<close> channels when it is 3-D, and OpenCV takes at most
  four. \<open>cv.mean\<close> returns four numbers, the mean of each channel and zeros after them.
  \<open>cv.rectangle\<close> with a negative thickness fills, in the array it is given, the rectangle
  whose opposite corners are \<open>pt1\<close> and \<open>pt2\<close>, both corners included, as far as it lies in
  the image; points are \<open>(x, y)\<close>.
\<close>

definition channels :: "ndarray \<Rightarrow> nat" where
  "channels a = (if ndim a = 2 then 1 else shape a ! 2)"

definition sample :: "ndarray \<Rightarrow> nat \<Rightarrow> nat \<Rightarrow> nat \<Rightarrow> real" where
  "sample a y x c = data a (if ndim a = 2 then [y, x] else [y, x, c])"

definition channel_mean :: "ndarray \<Rightarrow> nat \<Rightarrow> real" where
  "channel_mean a c =
     sum_list (map (\<lambda>y. sum_list (map (\<lambda>x. sample a y x c) [0..<shape a ! 1])) [0..<shape a ! 0])
       / real (shape a ! 0 * shape a ! 1)"

definition cv_mean :: "ndarray \<Rightarrow> error + real list" where
  "cv_mean a =
     (if 4 < channels a then Inl CvError
      else Inr (map (\<lambda>c. if c < channels a then channel_mean a c else 0) [0..<4]))"

definition in_image :: "ndarray \<Rightarrow> nat list \<Rightarrow> bool" where
  "in_image a idx = (length idx = ndim a \<and> list_all2 (<) idx (shape a))"

definition cv_rectangle ::
  "ndarray \<Rightarrow> nat \<times> nat \<Rightarrow> nat \<times> nat \<Rightarrow> real list \<Rightarrow> error + ndarray" where
  "cv_rectangle a pt1 pt2 color =
     (if 4 < channels a then Inl CvError
      else Inr (a\<lparr>data := (\<lambda>idx.
             if in_image a idx
                \<and> min (fst pt1) (fst pt2) \<le> idx ! 1 \<and> idx ! 1 \<le> max (fst pt1) (fst pt2)
                \<and> min (snd pt1) (snd pt2) \<le> idx ! 0 \<and> idx ! 0 \<le> max (snd pt1) (snd pt2)
             then color ! (if ndim a = 2 then 0 else idx ! 2)
             else data a idx)\<rparr>))"

text \<open>\<open>apply_occlusion(img_input, occlusion_level)\<close>.\<close>

definition apply_occlusion ::
  "env \<Rightarrow> img_input \<Rightarrow> string \<Rightarrow> heap \<Rightarrow> world \<Rightarrow> (error + nat) \<times> heap \<times> world" where
  "apply_occlusion e img_input occlusion_level h w =
     (case load_image e img_input h of
        (Inl err, h1) \<Rightarrow> (Inl err, h1, w)
      | (Inr img, h1) \<Rightarrow>
          (case occlusion_ratio occlusion_level of
             Inl err \<Rightarrow> (Inl err, h1, w)
           | Inr ratio \<Rightarrow>
               (case occlusion_patch ratio (shape (cells h1 img) ! 0) (shape (cells h1 img) ! 1) w of
                  (Inl err, w1) \<Rightarrow> (Inl err, h1, w1)
                | (Inr p, w1) \<Rightarrow>
                    (case cv_mean (cells h1 img) of
                       Inl err \<Rightarrow> (Inl err, h1, w1)
                     | Inr mean_color \<Rightarrow>
                         (case cv_rectangle (cells h1 img) (start_x p, start_y p)
                                 (end_x p, end_y p) mean_color of
                            Inl err \<Rightarrow> (Inl err, h1, w1)
                          | Inr drawn \<Rightarrow>
                              (Inr img, h1\<lparr>cells := (cells h1)(img := drawn)\<rparr>, w1))))))"

text \<open>
  A small setting for the examples below: no file exists, the Gaussian filter is a stand-in
  that hands its input back (no example depends on what the filter computes), and the store
  holds one image at reference 0, a 4 by 4 grayscale image that is black except for the
  sample at row 2, column 2.
\<close>

definition example_env :: env where
  "example_env = \<lparr>os_path_exists = (\<lambda>p. False), cv_imread = (\<lambda>p. None),
                   cv_GaussianBlur = (\<lambda>img sigma_x sigma_y. img)\<rparr>"

definition example_image :: ndarray where
  "example_image = \<lparr>shape = [4, 4], data = (\<lambda>idx. if idx = [2, 2] then 16 else 0)\<rparr>"

definition example_heap :: heap where
  "example_heap = \<lparr>cells = (\<lambda>r. example_image), next_free = 1\<rparr>"


section \<open>Properties of the application loop\<close>


lemma random_choice_ok:
  assumes "seq \<noteq> []"
  shows "\<exists>c w'. random_choice seq w = (Inr c, w') \<and> c \<in> set seq \<and> printed w' = printed w"
  using assms by (simp add: random_choice_def next_draw_def)

lemma substitute_retry_ok:
  "alphabet \<noteq> [] \<Longrightarrow> new_char \<in> set alphabet \<Longrightarrow>
   \<exists>c w'. substitute_retry original_char alphabet new_char attempts w = (Inr c, w')
      \<and> c \<in> set alphabet \<and> printed w' = printed w"
proof (induction original_char alphabet new_char attempts w rule: substitute_retry.induct)
  case (1 original_char alphabet new_char attempts w)
  show ?case
  proof (cases "new_char = original_char \<and> 1 < length alphabet \<and> attempts < 5")
    case True
    from random_choice_ok[OF "1.prems"(1), of w]
    obtain c w' where rc: "random_choice alphabet w = (Inr c, w')" "c \<in> set alphabet"
      "printed w' = printed w" by blast
    from "1.IH"[OF True rc(1)[symmetric] refl "1.prems"(1) rc(2)]
    obtain c' w'' where "substitute_retry original_char alphabet c (attempts + 1) w' = (Inr c', w'')"
      "c' \<in> set alphabet" "printed w'' = printed w'" by blast
    with True rc show ?thesis
      by (subst substitute_retry.simps) simp
  next
    case False
    with "1.prems" show ?thesis
      by (subst substitute_retry.simps) auto
  qed
qed

text \<open>What one iteration does when the index is in range and the alphabet is not empty.\<close>

definition step_shape ::
  "pystr \<Rightarrow> pystr \<Rightarrow> (nat \<rightharpoonup> operation) \<Rightarrow> loop_state \<Rightarrow> loop_state \<Rightarrow> bool" where
  "step_shape text alphabet modifications s s' =
     (case modifications (loop_i s) of
        None \<Rightarrow> s' = s\<lparr>new_text_list := new_text_list s @ [text ! loop_i s], loop_i := loop_i s + 1\<rparr>
      | Some Delete \<Rightarrow> s' = s\<lparr>loop_i := loop_i s + 1\<rparr>
      | Some Substitute \<Rightarrow>
          (\<exists>c. c \<in> set alphabet \<and>
             s' = s\<lparr>new_text_list := new_text_list s @ [c], loop_i := loop_i s + 1\<rparr>)
      | Some Insert \<Rightarrow>
          (\<exists>c. c \<in> set alphabet \<and>
             s' = s\<lparr>new_text_list := new_text_list s @ [c, text ! loop_i s],
                    loop_i := loop_i s + 1\<rparr>)
      | Some Swap \<Rightarrow>
          (if loop_i s + 1 < length text
           then s' = s\<lparr>new_text_list := new_text_list s @ [text ! (loop_i s + 1), text ! loop_i s],
                       processed_indices := insert (loop_i s + 1) (processed_indices s),
                       loop_i := loop_i s + 2\<rparr>
           else s' = s\<lparr>new_text_list := new_text_list s @ [text ! loop_i s],
                       loop_i := loop_i s + 1\<rparr>))"

lemma loop_body_ok:
  assumes "loop_i s < length text" and "alphabet \<noteq> []" and "loop_i s \<notin> processed_indices s"
  shows "\<exists>s' w'. loop_body text alphabet modifications s w = (Inr s', w')
           \<and> printed w' = printed w \<and> step_shape text alphabet modifications s s'"
proof (cases "modifications (loop_i s)")
  case None
  with assms show ?thesis
    by (simp add: loop_body_def py_index_def step_shape_def)
next
  case (Some operation)
  show ?thesis
  proof (cases operation)
    case Substitute
    from random_choice_ok[OF assms(2), of w]
    obtain c w1 where rc: "random_choice alphabet w = (Inr c, w1)" "c \<in> set alphabet"
      "printed w1 = printed w" by blast
    from substitute_retry_ok[OF assms(2) rc(2), of "text ! loop_i s" 0 w1]
    obtain c' w2 where sr: "substitute_retry (text ! loop_i s) alphabet c 0 w1 = (Inr c', w2)"
      "c' \<in> set alphabet" "printed w2 = printed w1" by blast
    with assms Some Substitute rc show ?thesis
      by (auto simp add: loop_body_def try_operation_def py_index_def step_shape_def)
  next
    case Delete
    with assms Some show ?thesis
      by (simp add: loop_body_def try_operation_def py_index_def step_shape_def)
  next
    case Insert
    from random_choice_ok[OF assms(2), of w]
    obtain c w1 where rc: "random_choice alphabet w = (Inr c, w1)" "c \<in> set alphabet"
      "printed w1 = printed w" by blast
    with assms Some Insert show ?thesis
      by (auto simp add: loop_body_def try_operation_def py_index_def step_shape_def)
  next
    case Swap
    with assms Some show ?thesis
      by (simp add: loop_body_def try_operation_def py_index_def step_shape_def)
  qed
qed


lemma step_shape_base:
  assumes "loop_i s < length text" and "processed_indices s \<subseteq> {..<loop_i s}"
    and "step_shape text alphabet modifications s s'"
  shows "processed_indices s' \<subseteq> {..<loop_i s'} \<and> loop_i s' \<le> length text \<and> loop_i s < loop_i s'"
  using assms
  by (auto simp: step_shape_def split: option.splits operation.splits if_splits)

lemma walk_invariant:
  assumes "alphabet \<noteq> []"
    and "Inv s" and "processed_indices s \<subseteq> {..<loop_i s}" and "loop_i s \<le> length text"
    and pres: "\<And>s s'. Inv s \<Longrightarrow> loop_i s < length text \<Longrightarrow> processed_indices s \<subseteq> {..<loop_i s} \<Longrightarrow>
                 step_shape text alphabet modifications s s' \<Longrightarrow> Inv s'"
  shows "\<exists>s' w'. walk text alphabet modifications s w = (Inr s', w') \<and> printed w' = printed w
           \<and> loop_i s' = length text \<and> Inv s'"
  using assms(2-4)
proof (induction "length text - loop_i s" arbitrary: s w rule: less_induct)
  case less
  show ?case
  proof (cases "loop_i s < length text")
    case True
    from less.prems(2) have notin: "loop_i s \<notin> processed_indices s" by auto
    from loop_body_ok[OF True assms(1) notin, of modifications w]
    obtain s1 w1 where lb: "loop_body text alphabet modifications s w = (Inr s1, w1)"
      "printed w1 = printed w" "step_shape text alphabet modifications s s1" by blast
    from step_shape_base[OF True less.prems(2) lb(3)]
    have base: "processed_indices s1 \<subseteq> {..<loop_i s1}" "loop_i s1 \<le> length text"
      "loop_i s < loop_i s1" by auto
    have inv1: "Inv s1" using pres[OF less.prems(1) True less.prems(2) lb(3)] .
    from base(3) True have "length text - loop_i s1 < length text - loop_i s" by simp
    from less.hyps[OF this inv1 base(1,2), of w1]
    obtain s' w' where "walk text alphabet modifications s1 w1 = (Inr s', w')"
      "printed w' = printed w1" "loop_i s' = length text" "Inv s'" by blast
    with True lb show ?thesis
      by (subst walk.simps) simp
  next
    case False
    with less.prems show ?thesis
      by (subst walk.simps) simp
  qed
qed


definition planned_from :: "(nat \<rightharpoonup> operation) \<Rightarrow> nat \<Rightarrow> nat \<Rightarrow> nat" where
  "planned_from modifications n i = card {j. i \<le> j \<and> j < n \<and> modifications j \<noteq> None}"

lemma planned_from_step:
  assumes "i < n" and "modifications i \<noteq> None"
  shows "planned_from modifications n i = Suc (planned_from modifications n (Suc i))"
proof -
  have "{j. i \<le> j \<and> j < n \<and> modifications j \<noteq> None}
        = insert i {j. Suc i \<le> j \<and> j < n \<and> modifications j \<noteq> None}"
    using assms by (auto simp: Suc_le_eq le_less)
  moreover have "finite {j. Suc i \<le> j \<and> j < n \<and> modifications j \<noteq> None}" by simp
  moreover have "i \<notin> {j. Suc i \<le> j \<and> j < n \<and> modifications j \<noteq> None}" by simp
  ultimately show ?thesis by (simp add: planned_from_def)
qed

lemma planned_from_mono:
  assumes "i \<le> i'"
  shows "planned_from modifications n i' \<le> planned_from modifications n i"
  unfolding planned_from_def using assms by (intro card_mono) auto

lemma planned_from_le_dom:
  assumes "finite (dom modifications)"
  shows "planned_from modifications n 0 \<le> card (dom modifications)"
  unfolding planned_from_def using assms by (intro card_mono) auto

lemma walk_length:
  assumes "alphabet \<noteq> []" and "processed_indices s \<subseteq> {..<loop_i s}" and "loop_i s \<le> length text"
  shows "\<exists>s' w'. walk text alphabet modifications s w = (Inr s', w') \<and> printed w' = printed w
           \<and> \<bar>int (length (new_text_list s')) - int (length text)\<bar>
               \<le> \<bar>int (length (new_text_list s)) - int (loop_i s)\<bar>
                  + int (planned_from modifications (length text) (loop_i s))"
proof -
  define B where "B = \<bar>int (length (new_text_list s)) - int (loop_i s)\<bar>
                  + int (planned_from modifications (length text) (loop_i s))"
  define Inv where "Inv = (\<lambda>s::loop_state. \<bar>int (length (new_text_list s)) - int (loop_i s)\<bar>
                  + int (planned_from modifications (length text) (loop_i s)) \<le> B)"
  have pres: "Inv s2" if "Inv s1" and lt: "loop_i s1 < length text"
    and "processed_indices s1 \<subseteq> {..<loop_i s1}"
    and sh: "step_shape text alphabet modifications s1 s2" for s1 s2 :: loop_state
  proof (cases "modifications (loop_i s1)")
    case None
    have "planned_from modifications (length text) (Suc (loop_i s1))
          \<le> planned_from modifications (length text) (loop_i s1)"
      by (rule planned_from_mono) simp
    with None sh \<open>Inv s1\<close> show ?thesis
      by (auto simp: step_shape_def Inv_def)
  next
    case (Some operation)
    then have st: "planned_from modifications (length text) (loop_i s1)
          = Suc (planned_from modifications (length text) (Suc (loop_i s1)))"
      using planned_from_step[OF lt] by simp
    have mono: "planned_from modifications (length text) (loop_i s1 + 2)
          \<le> planned_from modifications (length text) (Suc (loop_i s1))"
      by (rule planned_from_mono) simp
    from Some sh \<open>Inv s1\<close> st mono show ?thesis
      by (cases operation) (auto simp: step_shape_def Inv_def split: if_splits)
  qed
  have "Inv s" by (simp add: Inv_def B_def)
  with assms(1)
  have "\<exists>s' w'. walk text alphabet modifications s w = (Inr s', w') \<and> printed w' = printed w
           \<and> loop_i s' = length text \<and> Inv s'"
    using assms(2,3) pres by (rule walk_invariant)
  then obtain s' w' where "walk text alphabet modifications s w = (Inr s', w')" "printed w' = printed w"
    "loop_i s' = length text" "Inv s'" by blast
  then show ?thesis by (auto simp: Inv_def B_def)
qed

lemma walk_chars:
  assumes "alphabet \<noteq> []" and "processed_indices s \<subseteq> {..<loop_i s}" and "loop_i s \<le> length text"
    and "set (new_text_list s) \<subseteq> set text \<union> set alphabet"
  shows "\<exists>s' w'. walk text alphabet modifications s w = (Inr s', w')
           \<and> set (new_text_list s') \<subseteq> set text \<union> set alphabet"
proof -
  define Inv where "Inv = (\<lambda>s::loop_state. set (new_text_list s) \<subseteq> set text \<union> set alphabet)"
  have pres: "Inv s2" if "Inv s1" and lt: "loop_i s1 < length text"
    and "processed_indices s1 \<subseteq> {..<loop_i s1}"
    and sh: "step_shape text alphabet modifications s1 s2" for s1 s2 :: loop_state
    using that
    by (auto simp: step_shape_def Inv_def split: option.splits operation.splits if_splits)
  have "Inv s" using assms(4) by (simp add: Inv_def)
  with assms(1)
  have "\<exists>s' w'. walk text alphabet modifications s w = (Inr s', w') \<and> printed w' = printed w
           \<and> loop_i s' = length text \<and> Inv s'"
    using assms(2,3) pres by (rule walk_invariant)
  then show ?thesis by (auto simp: Inv_def)
qed

lemma sample_from_ok:
  "k \<le> length pool \<Longrightarrow>
   \<exists>xs w'. sample_from pool k w = (xs, w') \<and> length xs = k \<and> set xs \<subseteq> set pool
      \<and> printed w' = printed w"
proof (induction k arbitrary: pool w)
  case 0
  then show ?case by simp
next
  case (Suc k)
  obtain r w1 where nd: "next_draw w = (r, w1)" by (cases "next_draw w")
  then have p1: "printed w1 = printed w" by (auto simp: next_draw_def)
  let ?j = "r mod length pool"
  let ?pool' = "take ?j pool @ drop (Suc ?j) pool"
  from Suc.prems have ne: "pool \<noteq> []" by auto
  then have j: "?j < length pool" by simp
  then have "length ?pool' = length pool - 1" by simp
  with Suc.prems have "k \<le> length ?pool'" by simp
  from Suc.IH[OF this, of w1]
  obtain xs w2 where sf: "sample_from ?pool' k w1 = (xs, w2)" "length xs = k"
    "set xs \<subseteq> set ?pool'" "printed w2 = printed w1" by blast
  have "set ?pool' \<subseteq> set pool"
    using set_take_subset[of ?j pool] set_drop_subset[of "Suc ?j" pool] by auto
  with sf nd p1 j show ?case by (auto simp: nth_mem)
qed

lemma assign_operations_ok:
  "\<exists>m' w'. assign_operations idxs modifications w = (Inr m', w')
      \<and> dom m' = dom modifications \<union> set idxs \<and> printed w' = printed w"
proof (induction idxs arbitrary: modifications w)
  case Nil
  then show ?case by simp
next
  case (Cons idx rest)
  have "operations \<noteq> []" by (simp add: operations_def)
  from random_choice_ok[OF this, of w]
  obtain operation w1 where rc: "random_choice operations w = (Inr operation, w1)"
    "printed w1 = printed w" by blast
  from Cons.IH[of "modifications(idx \<mapsto> operation)" w1]
  obtain m' w' where "assign_operations rest (modifications(idx \<mapsto> operation)) w1 = (Inr m', w')"
    "dom m' = dom (modifications(idx \<mapsto> operation)) \<union> set rest" "printed w' = printed w1" by blast
  with rc show ?case by auto
qed

lemma NOISE_LEVEL_PERCENTAGES_range:
  "NOISE_LEVEL_PERCENTAGES name = Some percentage \<Longrightarrow> 0 < percentage \<and> percentage \<le> 1"
  by (auto simp: NOISE_LEVEL_PERCENTAGES_def split: if_splits)

lemma num_chars_le:
  assumes "0 < percentage" and "percentage \<le> 1"
  shows "nat \<lfloor>percentage * real n\<rfloor> \<le> n"
proof -
  have "percentage * real n \<le> real n" using assms by (simp add: mult_left_le_one_le)
  then have "\<lfloor>percentage * real n\<rfloor> \<le> int n" by (simp add: floor_le_iff)
  then show ?thesis by simp
qed



text \<open>
  The loop reads the plan only at its current index, so the walk from a state does not
  depend on what is planned for indices before it.
\<close>

lemma loop_body_plan_cong:
  "m (loop_i s) = m' (loop_i s) \<Longrightarrow>
   loop_body text alphabet m s w = loop_body text alphabet m' s w"
  by (simp add: loop_body_def)

lemma walk_plan_cong:
  assumes "\<forall>j\<ge>loop_i s. m j = m' j"
  shows "walk text alphabet m s w = walk text alphabet m' s w"
  using assms
proof (induction "length text - loop_i s" arbitrary: s w rule: less_induct)
  case less
  show ?case
  proof (cases "loop_i s < length text")
    case True
    from less.prems have same: "loop_body text alphabet m s w = loop_body text alphabet m' s w"
      by (intro loop_body_plan_cong) simp
    show ?thesis
    proof (cases "loop_body text alphabet m s w")
      case (Pair r w1)
      show ?thesis
      proof (cases r)
        case (Inl e)
        with Pair same True show ?thesis
          by (simp add: walk.simps[of "text" alphabet m s w] walk.simps[of "text" alphabet m' s w])
      next
        case (Inr s1)
        with Pair have adv: "loop_i s < loop_i s1" by (auto dest: loop_body_advances)
        with True have "length text - loop_i s1 < length text - loop_i s" by simp
        moreover from adv less.prems have "\<forall>j\<ge>loop_i s1. m j = m' j" by simp
        ultimately have "walk text alphabet m s1 w1 = walk text alphabet m' s1 w1"
          by (rule less.hyps)
        with Pair Inr same True show ?thesis
          by (simp add: walk.simps[of "text" alphabet m s w] walk.simps[of "text" alphabet m' s w])
      qed
    qed
  next
    case False
    then show ?thesis
      by (simp add: walk.simps[of "text" alphabet m s w] walk.simps[of "text" alphabet m' s w])
  qed
qed

lemma walk_step:
  "loop_i s < length text \<Longrightarrow> loop_body text alphabet m s w = (Inr s1, w1) \<Longrightarrow>
   walk text alphabet m s w = walk text alphabet m s1 w1"
  by (subst walk.simps) simp

text \<open>A world in which nothing was drawn or printed yet, with a given tape.\<close>

definition fresh_world :: "(nat \<Rightarrow> nat) \<Rightarrow> world" where
  "fresh_world t = \<lparr>tape = t, draws = 0, printed = []\<rparr>"

lemma add_char_noise_run:
  assumes "text \<noteq> []"
    and "NOISE_LEVEL_PERCENTAGES (lower noise_level) = Some percentage"
    and "alphabets (lower language) = Some alphabet" and "alphabet \<noteq> []"
    and "0 < nat \<lfloor>percentage * real (length text)\<rfloor>"
  shows "\<exists>modifications w2 s' w'.
           add_char_noise alphabets (PyStr text) noise_level language w = (Inr (new_text_list s'), w')
         \<and> walk text alphabet modifications initial_state w2 = (Inr s', w')
         \<and> printed w2 = printed w \<and> printed w' = printed w
         \<and> finite (dom modifications)
         \<and> card (dom modifications) \<le> nat \<lfloor>percentage * real (length text)\<rfloor>"
proof -
  let ?k = "nat \<lfloor>percentage * real (length text)\<rfloor>"
  from NOISE_LEVEL_PERCENTAGES_range[OF assms(2)] have "?k \<le> length text"
    by (intro num_chars_le) auto
  then have "?k \<le> length [0..<length text]" by simp
  from sample_from_ok[OF this, of w]
  obtain indices w1 where sf: "sample_from [0..<length text] ?k w = (indices, w1)"
    "length indices = ?k" "printed w1 = printed w" by blast
  from assign_operations_ok[of "sort indices" Map.empty w1]
  obtain modifications w2 where ao: "assign_operations (sort indices) Map.empty w1 = (Inr modifications, w2)"
    "dom modifications = set indices" "printed w2 = printed w1" by auto
  have fin: "finite (dom modifications)" using ao(2) by simp
  have "card (dom modifications) \<le> length indices" using ao(2) by (simp add: card_length)
  with sf(2) have cd: "card (dom modifications) \<le> ?k" by simp
  from walk_length[of alphabet initial_state "text" modifications w2] assms(4)
  obtain s' w' where wk: "walk text alphabet modifications initial_state w2 = (Inr s', w')"
    "printed w' = printed w2" by (auto simp: initial_state_def)
  have "add_char_noise alphabets (PyStr text) noise_level language w = (Inr (new_text_list s'), w')"
    using assms sf(1) ao(1) wk(1) \<open>?k \<le> length text\<close>
    by (simp add: add_char_noise_def calculate_modifications_def apply_modifications_def
        random_sample_def)
  with wk ao(3) sf(3) fin cd show ?thesis by auto
qed

section \<open>Claims about \<open>add_char_noise\<close>\<close>

text \<open>
  Claim C1. For every text, every recognised tier and every registered language whose
  alphabet is not empty, whatever the random draws, \<open>add_char_noise\<close> returns a string
  whose length lies between \<open>length text - k\<close> and \<open>length text + k\<close>, where
  \<open>k = floor (fraction * length text)\<close>.
\<close>

theorem C1_length_within_k:
  assumes "NOISE_LEVEL_PERCENTAGES (lower noise_level) = Some percentage"
    and "alphabets (lower language) = Some alphabet" and "alphabet \<noteq> []"
  shows "\<exists>result w'.
           add_char_noise alphabets (PyStr text) noise_level language w = (Inr result, w')
         \<and> int (length text) - int (nat \<lfloor>percentage * real (length text)\<rfloor>) \<le> int (length result)
         \<and> int (length result) \<le> int (length text) + int (nat \<lfloor>percentage * real (length text)\<rfloor>)"
proof -
  let ?k = "nat \<lfloor>percentage * real (length text)\<rfloor>"
  consider "text = []" | "text \<noteq> []" "?k = 0" | "text \<noteq> []" "?k \<noteq> 0" by blast
  then show ?thesis
  proof cases
    case 1
    then show ?thesis by (simp add: add_char_noise_def)
  next
    case 2
    with assms show ?thesis by (simp add: add_char_noise_def)
  next
    case 3
    from 3(2) have "0 < ?k" by blast
    from add_char_noise_run[where alphabets=alphabets and language=language and w=w, OF 3(1) assms this]
    obtain modifications w2 s' w' where run:
      "add_char_noise alphabets (PyStr text) noise_level language w = (Inr (new_text_list s'), w')"
      "walk text alphabet modifications initial_state w2 = (Inr s', w')"
      "finite (dom modifications)" "card (dom modifications) \<le> ?k" by blast
    from walk_length[of alphabet initial_state "text" modifications w2] assms(3) run(2)
    have "\<bar>int (length (new_text_list s')) - int (length text)\<bar>
            \<le> int (planned_from modifications (length text) 0)"
      by (auto simp: initial_state_def)
    also have "\<dots> \<le> int (card (dom modifications))"
      using planned_from_le_dom[OF run(3)] by simp
    also have "\<dots> \<le> int ?k" using run(4) by linarith
    finally show ?thesis using run(1) by auto
  qed
qed

theorem C1_length_within_k_witness:
  "\<exists>result w'.
     add_char_noise ALPHABETS (PyStr (str ''abcdefgh'')) ''High'' ''English'' (fresh_world (\<lambda>i. 3))
       = (Inr result, w')
     \<and> 6 \<le> int (length result) \<and> int (length result) \<le> 10"
  using C1_length_within_k[of "''High''" "0.25" ALPHABETS "''English''" english_alphabet
      "str ''abcdefgh''" "fresh_world (\<lambda>i. 3)"]
  by (simp add: NOISE_LEVEL_PERCENTAGES_def ALPHABETS_def lower_def lower_char_def
      ascii_uppercase_def ascii_lowercase_def english_alphabet_def str_def)

text \<open>
  Claim C2, as amended. Whenever the loop is at an index \<open>i\<close> that is not marked as handled,
  with Swap planned at \<open>i\<close> and \<open>i + 1 < length text\<close>, that iteration appends the character at
  \<open>i + 1\<close> and then the character at \<open>i\<close>, marks \<open>i + 1\<close> as handled and moves to \<open>i + 2\<close>;
  and the walk gives the same result whatever is planned for \<open>i + 1\<close>, so that plan is never
  applied. (The loop is never at an index that the swap before it has consumed: a Swap
  planned there is dropped like any other operation.)
\<close>

theorem C2_swap_when_reached:
  assumes "loop_i s + 1 < length text" and "loop_i s \<notin> processed_indices s"
    and "modifications (loop_i s) = Some Swap"
  shows "loop_body text alphabet modifications s w
           = (Inr (s\<lparr>new_text_list := new_text_list s @ [text ! (loop_i s + 1), text ! loop_i s],
                      processed_indices := insert (loop_i s + 1) (processed_indices s),
                      loop_i := loop_i s + 2\<rparr>), w)
         \<and> walk text alphabet (modifications(loop_i s + 1 := planned)) s w
             = walk text alphabet modifications s w"
proof -
  let ?s2 = "s\<lparr>new_text_list := new_text_list s @ [text ! (loop_i s + 1), text ! loop_i s],
                      processed_indices := insert (loop_i s + 1) (processed_indices s),
                      loop_i := loop_i s + 2\<rparr>"
  let ?m' = "modifications(loop_i s + 1 := planned)"
  from assms have lb: "loop_body text alphabet modifications s w = (Inr ?s2, w)"
    by (simp add: loop_body_def try_operation_def py_index_def)
  have "loop_body text alphabet ?m' s w = loop_body text alphabet modifications s w"
    by (intro loop_body_plan_cong) simp
  with lb have lb': "loop_body text alphabet ?m' s w = (Inr ?s2, w)" by simp
  have "walk text alphabet ?m' ?s2 w = walk text alphabet modifications ?s2 w"
    by (intro walk_plan_cong) simp
  moreover from assms(1) have lt: "loop_i s < length text" by simp
  note walk_step[OF lt lb'] walk_step[OF lt lb]
  ultimately have "walk text alphabet ?m' s w = walk text alphabet modifications s w"
    by simp
  with lb show ?thesis by simp
qed

theorem C2_swap_when_reached_witness:
  "loop_body (str ''abc'') english_alphabet [0 \<mapsto> Swap] initial_state (fresh_world (\<lambda>i. 3))
     = (Inr \<lparr>new_text_list = str ''ba'', processed_indices = {1}, loop_i = 2\<rparr>, fresh_world (\<lambda>i. 3))
   \<and> walk (str ''abc'') english_alphabet [0 \<mapsto> Swap, 1 \<mapsto> Delete] initial_state (fresh_world (\<lambda>i. 3))
     = walk (str ''abc'') english_alphabet [0 \<mapsto> Swap] initial_state (fresh_world (\<lambda>i. 3))"
  using C2_swap_when_reached[of initial_state "str ''abc''" "[0 \<mapsto> Swap]" english_alphabet
      "fresh_world (\<lambda>i. 3)" "Some Delete"]
  by (simp add: initial_state_def str_def)

text \<open>
  The claim as first stated speaks of every index the plan assigns Swap to. With the text
  \<open>abcdefgh\<close> at tier high (\<open>k = 2\<close>) and draws that plan Swap at the indices 0 and 1, the swap
  at 0 consumes index 1: the result is \<open>bacdefgh\<close>, the characters at 2 and 1 are not
  exchanged and index 2 is never marked as handled.
\<close>

theorem C2_adjacent_swaps_counterexample:
  "case calculate_modifications 8 2 (fresh_world (\<lambda>i. if i < 2 then 0 else 3)) of
     (Inl e, w2) \<Rightarrow> False
   | (Inr modifications, w2) \<Rightarrow>
       modifications 1 = Some Swap
       \<and> (case walk (str ''abcdefgh'') english_alphabet modifications initial_state w2 of
            (Inl e, w3) \<Rightarrow> False
          | (Inr s, w3) \<Rightarrow>
              new_text_list s = str ''bacdefgh'' \<and> 2 \<notin> processed_indices s
              \<and> \<not> sublist (str ''cb'') (new_text_list s))"
  by code_simp

text \<open>
  Claim C5, as amended. Let Swap be planned for the final index \<open>n - 1\<close>. Whenever the loop
  is at that index (so the index is not marked as handled), the iteration reads \<open>text[n - 1]\<close>
  only, appends it unchanged, draws nothing, prints nothing and ends the walk: the last
  character is the last character of the output. The whole walk raises no IndexError,
  neither one that leaves the function nor one that the handler catches and prints, so no
  read is out of range. At its end the final index is marked as handled exactly when a Swap
  at \<open>n - 2\<close> consumed it; then the Swap planned at \<open>n - 1\<close> is dropped and the output ends
  with \<open>text[n - 1]\<close> followed by \<open>text[n - 2]\<close>. Otherwise the output ends with \<open>text[n - 1]\<close>.
\<close>

theorem C5_final_swap_when_reached:
  assumes "text \<noteq> []" and "alphabet \<noteq> []"
    and "modifications (length text - 1) = Some Swap"
  shows "(\<forall>s w. loop_i s = length text - 1 \<and> loop_i s \<notin> processed_indices s \<longrightarrow>
            loop_body text alphabet modifications s w
              = (Inr (s\<lparr>new_text_list := new_text_list s @ [last text],
                         loop_i := length text\<rparr>), w)
          \<and> walk text alphabet modifications s w
              = (Inr (s\<lparr>new_text_list := new_text_list s @ [last text],
                         loop_i := length text\<rparr>), w))
       \<and> (\<exists>s' w'. walk text alphabet modifications initial_state w0 = (Inr s', w')
            \<and> printed w' = printed w0 \<and> new_text_list s' \<noteq> []
            \<and> (if length text - 1 \<in> processed_indices s'
               then 2 \<le> length text \<and> modifications (length text - 2) = Some Swap
                    \<and> last (new_text_list s') = text ! (length text - 2)
                    \<and> butlast (new_text_list s') \<noteq> []
                    \<and> last (butlast (new_text_list s')) = last text
               else last (new_text_list s') = last text))"
proof
  show "\<forall>s w. loop_i s = length text - 1 \<and> loop_i s \<notin> processed_indices s \<longrightarrow>
            loop_body text alphabet modifications s w
              = (Inr (s\<lparr>new_text_list := new_text_list s @ [last text],
                         loop_i := length text\<rparr>), w)
          \<and> walk text alphabet modifications s w
              = (Inr (s\<lparr>new_text_list := new_text_list s @ [last text],
                         loop_i := length text\<rparr>), w)"
  proof (intro allI impI)
    fix s :: loop_state and w :: world
    assume at: "loop_i s = length text - 1 \<and> loop_i s \<notin> processed_indices s"
    let ?s2 = "s\<lparr>new_text_list := new_text_list s @ [last text], loop_i := length text\<rparr>"
    from at have i: "loop_i s = length text - 1" by (rule conjunct1)
    from at have np: "loop_i s \<notin> processed_indices s" by (rule conjunct2)
    from i assms(1) have lt: "loop_i s < length text" by simp
    from i assms(1) have nx: "\<not> loop_i s + 1 < length text" by simp
    from i assms(1) have ch: "text ! loop_i s = last text" by (simp add: last_conv_nth)
    from i assms(1) have i1: "loop_i s + 1 = length text" by simp
    from i assms(3) have pl: "modifications (loop_i s) = Some Swap" by simp
    from np lt nx ch i1 pl
    have lb: "loop_body text alphabet modifications s w = (Inr ?s2, w)"
      by (simp add: loop_body_def try_operation_def py_index_def)
    have "walk text alphabet modifications ?s2 w = (Inr ?s2, w)"
      by (subst walk.simps) simp
    with walk_step[OF lt lb] have "walk text alphabet modifications s w = (Inr ?s2, w)"
      by simp
    with lb show "loop_body text alphabet modifications s w = (Inr ?s2, w)
          \<and> walk text alphabet modifications s w = (Inr ?s2, w)" by simp
  qed
next
  define ends where "ends = (\<lambda>s::loop_state. new_text_list s \<noteq> []
            \<and> (if length text - 1 \<in> processed_indices s
               then 2 \<le> length text \<and> modifications (length text - 2) = Some Swap
                    \<and> last (new_text_list s) = text ! (length text - 2)
                    \<and> butlast (new_text_list s) \<noteq> []
                    \<and> last (butlast (new_text_list s)) = last text
               else last (new_text_list s) = last text))"
  define Inv where "Inv = (\<lambda>s::loop_state. loop_i s = length text \<longrightarrow> ends s)"
  have pres: "Inv s2" if "Inv s1" and lt: "loop_i s1 < length text"
    and pr: "processed_indices s1 \<subseteq> {..<loop_i s1}"
    and sh: "step_shape text alphabet modifications s1 s2" for s1 s2 :: loop_state
  proof (cases "loop_i s1 = length text - 1")
    case True
    from pr True have "length text - 1 \<notin> processed_indices s1" by auto
    with True sh assms(1,3) show ?thesis
      by (auto simp: step_shape_def Inv_def ends_def last_conv_nth)
  next
    case False
    show ?thesis
    proof (cases "loop_i s2 = length text")
      case True
      with False lt sh have at: "loop_i s1 = length text - 2" "2 \<le> length text"
        by (auto simp: step_shape_def split: option.splits operation.splits if_splits)
      then have suc: "Suc (length text - 2) = length text - 1" by linarith
      with assms(1) have e1: "text ! Suc (length text - 2) = last text"
        by (simp add: last_conv_nth)
      from at True sh e1 suc show ?thesis
        by (auto simp: step_shape_def Inv_def ends_def butlast_append
            split: option.splits operation.splits if_splits)
    next
      case False
      then show ?thesis by (simp add: Inv_def)
    qed
  qed
  have "Inv initial_state" using assms(1) by (simp add: Inv_def initial_state_def)
  with assms(2)
  have "\<exists>s' w'. walk text alphabet modifications initial_state w0 = (Inr s', w')
           \<and> printed w' = printed w0 \<and> loop_i s' = length text \<and> Inv s'"
    using _ _ pres by (rule walk_invariant) (simp_all add: initial_state_def)
  then show "\<exists>s' w'. walk text alphabet modifications initial_state w0 = (Inr s', w')
            \<and> printed w' = printed w0 \<and> new_text_list s' \<noteq> []
            \<and> (if length text - 1 \<in> processed_indices s'
               then 2 \<le> length text \<and> modifications (length text - 2) = Some Swap
                    \<and> last (new_text_list s') = text ! (length text - 2)
                    \<and> butlast (new_text_list s') \<noteq> []
                    \<and> last (butlast (new_text_list s')) = last text
               else last (new_text_list s') = last text)"
    unfolding Inv_def ends_def by blast
qed

text \<open>
  The text \<open>abc\<close> with Swap planned at index 2 only: from the state in which \<open>ab\<close> has been
  put out the walk ends with \<open>abc\<close>, and the whole walk puts out a text that ends with \<open>c\<close>.
\<close>

theorem C5_final_swap_when_reached_witness:
  "walk (str ''abc'') english_alphabet [2 \<mapsto> Swap]
       \<lparr>new_text_list = str ''ab'', processed_indices = {}, loop_i = 2\<rparr> (fresh_world (\<lambda>i. 3))
     = (Inr \<lparr>new_text_list = str ''abc'', processed_indices = {}, loop_i = 3\<rparr>,
        fresh_world (\<lambda>i. 3))
   \<and> (\<exists>s' w'. walk (str ''abc'') english_alphabet [2 \<mapsto> Swap] initial_state
                  (fresh_world (\<lambda>i. 3)) = (Inr s', w')
        \<and> printed w' = printed (fresh_world (\<lambda>i. 3)) \<and> new_text_list s' \<noteq> []
        \<and> (if 2 \<in> processed_indices s'
           then last (new_text_list s') = str ''abc'' ! 1
                \<and> last (butlast (new_text_list s')) = last (str ''abc'')
           else last (new_text_list s') = last (str ''abc'')))"
proof -
  have a: "str ''abc'' \<noteq> []" by (simp add: str_def)
  have b: "english_alphabet \<noteq> []" by (simp add: english_alphabet_def str_def)
  have c: "[2 \<mapsto> Swap] (length (str ''abc'') - 1) = Some Swap" by (simp add: str_def)
  have n: "length (str ''abc'') = 3" by (simp add: str_def)
  note th = C5_final_swap_when_reached[of "str ''abc''" english_alphabet "[2 \<mapsto> Swap]"
      "fresh_world (\<lambda>i. 3)", OF a b c]
  from th have reached: "\<forall>s w. loop_i s = length (str ''abc'') - 1 \<and> loop_i s \<notin> processed_indices s \<longrightarrow>
            walk (str ''abc'') english_alphabet [2 \<mapsto> Swap] s w
              = (Inr (s\<lparr>new_text_list := new_text_list s @ [last (str ''abc'')],
                         loop_i := length (str ''abc'')\<rparr>), w)"
    by blast
  from reached[rule_format,
      of "\<lparr>new_text_list = str ''ab'', processed_indices = {}, loop_i = 2\<rparr>" "fresh_world (\<lambda>i. 3)"]
  have first: "walk (str ''abc'') english_alphabet [2 \<mapsto> Swap]
       \<lparr>new_text_list = str ''ab'', processed_indices = {}, loop_i = 2\<rparr> (fresh_world (\<lambda>i. 3))
     = (Inr \<lparr>new_text_list = str ''abc'', processed_indices = {}, loop_i = 3\<rparr>,
        fresh_world (\<lambda>i. 3))"
    by (simp add: str_def)
  from th obtain s' w' where run:
    "walk (str ''abc'') english_alphabet [2 \<mapsto> Swap] initial_state (fresh_world (\<lambda>i. 3)) = (Inr s', w')"
    "printed w' = printed (fresh_world (\<lambda>i. 3))" "new_text_list s' \<noteq> []"
    and fin: "if length (str ''abc'') - 1 \<in> processed_indices s'
               then 2 \<le> length (str ''abc'')
                    \<and> [2 \<mapsto> Swap] (length (str ''abc'') - 2) = Some Swap
                    \<and> last (new_text_list s') = str ''abc'' ! (length (str ''abc'') - 2)
                    \<and> butlast (new_text_list s') \<noteq> []
                    \<and> last (butlast (new_text_list s')) = last (str ''abc'')
               else last (new_text_list s') = last (str ''abc'')"
    by blast
  from fin have "if 2 \<in> processed_indices s'
           then last (new_text_list s') = str ''abc'' ! 1
                \<and> last (butlast (new_text_list s')) = last (str ''abc'')
           else last (new_text_list s') = last (str ''abc'')"
    by (simp add: n split: if_splits)
  with first run show ?thesis by blast
qed

text \<open>
  The claim as first stated has the last character kept as the last character whenever Swap
  is planned for the final index. With the text \<open>abcdefgh\<close> at tier high (\<open>k = 2\<close>) and draws
  that plan Swap at the indices 6 and 7, the swap at 6 puts out \<open>h\<close> and then \<open>g\<close> and consumes
  index 7: the result is \<open>abcdefhg\<close>, which ends with \<open>g\<close>.
\<close>

theorem C5_swap_before_final_counterexample:
  "(case calculate_modifications 8 2 (fresh_world (\<lambda>i. if i < 2 then 6 else 3)) of
      (Inl e, w2) \<Rightarrow> False
    | (Inr modifications, w2) \<Rightarrow>
        modifications 6 = Some Swap \<and> modifications 7 = Some Swap
        \<and> (case walk (str ''abcdefgh'') english_alphabet modifications initial_state w2 of
             (Inl e, w3) \<Rightarrow> False
           | (Inr s, w3) \<Rightarrow>
               new_text_list s = str ''abcdefhg''
               \<and> last (new_text_list s) \<noteq> last (str ''abcdefgh'')))
   \<and> fst (add_char_noise ALPHABETS (PyStr (str ''abcdefgh'')) ''high'' ''english''
            (fresh_world (\<lambda>i. if i < 2 then 6 else 3))) = Inr (str ''abcdefhg'')"
  by code_simp

text \<open>
  Claim C3, as amended. For every non-empty text, an unrecognised tier name, an unrecognised
  language (both after case folding) or an empty alphabet makes \<open>add_char_noise\<close> raise
  ValueError, and the world is left as it was: no random draw was made and nothing was
  printed. (For the empty text the function returns before it validates anything.)
\<close>

theorem C3_invalid_argument_nonempty_text:
  assumes "text \<noteq> []"
    and "NOISE_LEVEL_PERCENTAGES (lower noise_level) = None
         \<or> alphabets (lower language) = None \<or> alphabets (lower language) = Some []"
  shows "add_char_noise alphabets (PyStr text) noise_level language w = (Inl ValueError, w)"
  using assms by (auto simp: add_char_noise_def split: option.splits)

theorem C3_invalid_argument_nonempty_text_witness:
  "add_char_noise ALPHABETS (PyStr (str ''abc'')) ''extreme'' ''english'' (fresh_world (\<lambda>i. 3))
     = (Inl ValueError, (fresh_world (\<lambda>i. 3)))
   \<and> add_char_noise ALPHABETS (PyStr (str ''abc'')) ''low'' ''klingon'' (fresh_world (\<lambda>i. 3))
     = (Inl ValueError, (fresh_world (\<lambda>i. 3)))
   \<and> add_char_noise (ALPHABETS(''klingon'' \<mapsto> [])) (PyStr (str ''abc'')) ''low'' ''Klingon'' (fresh_world (\<lambda>i. 3))
     = (Inl ValueError, (fresh_world (\<lambda>i. 3)))"
  using C3_invalid_argument_nonempty_text[of "str ''abc''" "''extreme''" ALPHABETS "''english''" "fresh_world (\<lambda>i. 3)"]
    C3_invalid_argument_nonempty_text[of "str ''abc''" "''low''" ALPHABETS "''klingon''" "fresh_world (\<lambda>i. 3)"]
    C3_invalid_argument_nonempty_text[of "str ''abc''" "''low''" "ALPHABETS(''klingon'' \<mapsto> [])"
      "''Klingon''" "fresh_world (\<lambda>i. 3)"]
  by (simp add: NOISE_LEVEL_PERCENTAGES_def ALPHABETS_def lower_def lower_char_def
      ascii_uppercase_def ascii_lowercase_def str_def)

text \<open>
  The claim as first stated covers every text. For the empty text an unknown tier and an
  unknown language raise nothing: the call returns the empty string.
\<close>

theorem C3_empty_text_counterexample:
  "NOISE_LEVEL_PERCENTAGES (lower ''extreme'') = None
   \<and> ALPHABETS (lower ''klingon'') = None
   \<and> fst (add_char_noise ALPHABETS (PyStr []) ''extreme'' ''klingon'' (fresh_world (\<lambda>i. 3))) = Inr []
   \<and> fst (add_char_noise ALPHABETS (PyStr []) ''extreme'' ''klingon'' (fresh_world (\<lambda>i. 3))) \<noteq> Inl ValueError"
  by (simp add: add_char_noise_def NOISE_LEVEL_PERCENTAGES_def ALPHABETS_def lower_def
      lower_char_def ascii_uppercase_def ascii_lowercase_def)

text \<open>
  Claim C6. For every valid tier and language, \<open>add_char_noise\<close> returns the text as it is,
  and leaves the world as it is (no index was drawn), when the text is empty or the
  modification count \<open>floor (fraction * length text)\<close> is zero.
\<close>

theorem C6_unchanged_when_nothing_to_modify:
  assumes "NOISE_LEVEL_PERCENTAGES (lower noise_level) = Some percentage"
    and "alphabets (lower language) = Some alphabet" and "alphabet \<noteq> []"
    and "text = [] \<or> nat \<lfloor>percentage * real (length text)\<rfloor> = 0"
  shows "add_char_noise alphabets (PyStr text) noise_level language w = (Inr text, w)"
  using assms by (auto simp: add_char_noise_def)

text \<open>The scenario of the specification: \<open>abcde\<close> at tier low has \<open>k = 0\<close>.\<close>

theorem C6_unchanged_when_nothing_to_modify_witness:
  "nat \<lfloor>(0.05::real) * real (length (str ''abcde''))\<rfloor> = 0
   \<and> add_char_noise ALPHABETS (PyStr (str ''abcde'')) ''low'' ''english'' (fresh_world (\<lambda>i. 3))
       = (Inr (str ''abcde''), (fresh_world (\<lambda>i. 3)))"
  using C6_unchanged_when_nothing_to_modify[of "''low''" "0.05" ALPHABETS "''english''"
      english_alphabet "str ''abcde''" "fresh_world (\<lambda>i. 3)"]
  by (simp add: NOISE_LEVEL_PERCENTAGES_def ALPHABETS_def lower_def lower_char_def
      ascii_uppercase_def ascii_lowercase_def english_alphabet_def str_def)

text \<open>
  Claim C9. For the empty string \<open>add_char_noise\<close> returns the empty string whatever the
  tier and the language are, recognised or not: the early return comes before validation,
  so nothing is raised, drawn or printed.
\<close>

theorem C9_empty_text_before_validation:
  "add_char_noise alphabets (PyStr []) noise_level language w = (Inr [], w)"
  by (simp add: add_char_noise_def)

text \<open>
  Claim C10. For every valid input, whatever the random draws, every character of the
  returned string occurs in the input text or belongs to the alphabet of the language.
\<close>

theorem C10_output_characters:
  assumes "NOISE_LEVEL_PERCENTAGES (lower noise_level) = Some percentage"
    and "alphabets (lower language) = Some alphabet" and "alphabet \<noteq> []"
  shows "\<exists>result w'.
           add_char_noise alphabets (PyStr text) noise_level language w = (Inr result, w')
         \<and> set result \<subseteq> set text \<union> set alphabet"
proof -
  let ?k = "nat \<lfloor>percentage * real (length text)\<rfloor>"
  consider "text = []" | "text \<noteq> []" "?k = 0" | "text \<noteq> []" "?k \<noteq> 0" by blast
  then show ?thesis
  proof cases
    case 1
    then show ?thesis by (simp add: add_char_noise_def)
  next
    case 2
    with assms show ?thesis by (simp add: add_char_noise_def)
  next
    case 3
    from 3(2) have "0 < ?k" by blast
    from add_char_noise_run[where alphabets=alphabets and language=language and w=w, OF 3(1) assms this]
    obtain modifications w2 s' w' where run:
      "add_char_noise alphabets (PyStr text) noise_level language w = (Inr (new_text_list s'), w')"
      "walk text alphabet modifications initial_state w2 = (Inr s', w')" by blast
    from walk_chars[of alphabet initial_state "text" modifications w2] assms(3) run(2)
    have "set (new_text_list s') \<subseteq> set text \<union> set alphabet"
      by (auto simp: initial_state_def)
    with run(1) show ?thesis by auto
  qed
qed

theorem C10_output_characters_witness:
  "\<exists>result w'.
     add_char_noise ALPHABETS (PyStr (str ''abcdefgh'')) ''high'' ''Hindi'' (fresh_world (\<lambda>i. 3))
       = (Inr result, w')
     \<and> set result \<subseteq> set (str ''abcdefgh'') \<union> set hindi_alphabet"
  using C10_output_characters[of "''high''" "0.25" ALPHABETS "''Hindi''" hindi_alphabet
      "str ''abcdefgh''" "fresh_world (\<lambda>i. 3)"]
  by (simp add: NOISE_LEVEL_PERCENTAGES_def ALPHABETS_def lower_def lower_char_def
      ascii_uppercase_def ascii_lowercase_def hindi_alphabet_def)

section \<open>Properties of the image functions\<close>

















text \<open>Case folding leaves a folded word as it is, and the three tier names are folded.\<close>

lemma lower_char_idem: "lower_char (lower_char c) = lower_char c"
proof (cases "map_of (zip ascii_uppercase ascii_lowercase) c")
  case None
  then show ?thesis by (simp add: lower_char_def)
next
  case (Some l)
  then have "(c, l) \<in> set (zip ascii_uppercase ascii_lowercase)" by (rule map_of_SomeD)
  then have "l \<in> set ascii_lowercase" by (rule set_zip_rightD)
  then have "l \<notin> set ascii_uppercase"
    by (auto simp: ascii_lowercase_def ascii_uppercase_def)
  then have "map_of (zip ascii_uppercase ascii_lowercase) l = None"
    by (simp add: map_of_zip_is_None ascii_lowercase_def ascii_uppercase_def)
  with Some show ?thesis by (simp add: lower_char_def)
qed

lemma lower_idem: "lower (lower s) = lower s"
  by (simp add: lower_def lower_char_idem)

lemma lower_tier_names:
  "lower ''low'' = ''low''" "lower ''medium'' = ''medium''" "lower ''high'' = ''high''"
  by (simp_all add: lower_def lower_char_def ascii_uppercase_def ascii_lowercase_def)


section \<open>Claims about \<open>apply_occlusion\<close>\<close>







section \<open>The tier argument of the three functions\<close>

text \<open>
  Claim C4, as amended. Let \<open>tier\<close> be any casing variant of one of the three tier names.
  \<open>add_char_noise\<close> does with it exactly what it does with the lowercase name, and the
  fraction it looks up is 0.05, 0.15 or 0.25. \<open>apply_gaussian_blur\<close> and \<open>apply_occlusion\<close>
  compare the argument as it is: the lowercase name selects sigma 1, 3 or 6 and ratio 0.08,
  0.20 or 0.40, and every other casing raises ValueError (once the image is loaded).
\<close>

theorem C4_tier_case_text_only:
  assumes "lower tier = ''low'' \<or> lower tier = ''medium'' \<or> lower tier = ''high''"
  shows "add_char_noise alphabets text_arg tier language w
           = add_char_noise alphabets text_arg (lower tier) language w
       \<and> NOISE_LEVEL_PERCENTAGES (lower tier)
           = Some (if lower tier = ''low'' then 0.05
                   else if lower tier = ''medium'' then 0.15 else 0.25)
       \<and> (tier = lower tier \<longrightarrow>
            blur_sigma tier = Inr (if tier = ''low'' then 1 else if tier = ''medium'' then 3 else 6)
          \<and> occlusion_ratio tier
              = Inr (if tier = ''low'' then 0.08 else if tier = ''medium'' then 0.20 else 0.40))
       \<and> (tier \<noteq> lower tier \<longrightarrow>
            blur_sigma tier = Inl ValueError \<and> occlusion_ratio tier = Inl ValueError
          \<and> (\<forall>e img_input h img h1 w'. load_image e img_input h = (Inr img, h1) \<longrightarrow>
                 apply_gaussian_blur e img_input tier h = (Inl ValueError, h1)
               \<and> apply_occlusion e img_input tier h w' = (Inl ValueError, h1, w')))"
proof -
  have text_part: "add_char_noise alphabets text_arg tier language w
           = add_char_noise alphabets text_arg (lower tier) language w"
    unfolding add_char_noise_def lower_idem by (rule refl)
  have fraction: "NOISE_LEVEL_PERCENTAGES (lower tier)
           = Some (if lower tier = ''low'' then 0.05
                   else if lower tier = ''medium'' then 0.15 else 0.25)"
    using assms by (auto simp: NOISE_LEVEL_PERCENTAGES_def)
  have exact: "blur_sigma tier = Inr (if tier = ''low'' then 1 else if tier = ''medium'' then 3 else 6)
          \<and> occlusion_ratio tier
              = Inr (if tier = ''low'' then 0.08 else if tier = ''medium'' then 0.20 else 0.40)"
    if "tier = lower tier"
  proof -
    from that assms have "tier = ''low'' \<or> tier = ''medium'' \<or> tier = ''high''" by simp
    then show ?thesis by (auto simp: blur_sigma_def occlusion_ratio_def)
  qed
  have other: "blur_sigma tier = Inl ValueError \<and> occlusion_ratio tier = Inl ValueError
          \<and> (\<forall>e img_input h img h1 w'. load_image e img_input h = (Inr img, h1) \<longrightarrow>
                 apply_gaussian_blur e img_input tier h = (Inl ValueError, h1)
               \<and> apply_occlusion e img_input tier h w' = (Inl ValueError, h1, w'))"
    if "tier \<noteq> lower tier"
  proof -
    from that lower_tier_names
    have no: "tier \<noteq> ''low''" "tier \<noteq> ''medium''" "tier \<noteq> ''high''" by auto
    then have b: "blur_sigma tier = Inl ValueError" by (simp add: blur_sigma_def)
    from no have o: "occlusion_ratio tier = Inl ValueError" by (simp add: occlusion_ratio_def)
    from b o show ?thesis by (simp add: apply_gaussian_blur_def apply_occlusion_def)
  qed
  from text_part fraction exact other show ?thesis by blast
qed

text \<open>The tier written \<open>HIGH\<close>: the text function takes it for \<open>high\<close>, the image functions
  raise ValueError.\<close>

theorem C4_tier_case_text_only_witness:
  "lower ''HIGH'' = ''high''
   \<and> add_char_noise ALPHABETS (PyStr (str ''abcdefgh'')) ''HIGH'' ''english'' (fresh_world (\<lambda>i. 3))
       = add_char_noise ALPHABETS (PyStr (str ''abcdefgh'')) ''high'' ''english'' (fresh_world (\<lambda>i. 3))
   \<and> NOISE_LEVEL_PERCENTAGES (lower ''HIGH'') = Some 0.25
   \<and> blur_sigma ''HIGH'' = Inl ValueError \<and> occlusion_ratio ''HIGH'' = Inl ValueError
   \<and> fst (apply_gaussian_blur example_env (Array 0) ''HIGH'' example_heap) = Inl ValueError
   \<and> fst (apply_occlusion example_env (Array 0) ''HIGH'' example_heap (fresh_world (\<lambda>i. 0)))
       = Inl ValueError"
proof -
  have l: "lower ''HIGH'' = ''high''"
    by (simp add: lower_def lower_char_def ascii_uppercase_def ascii_lowercase_def)
  have ld: "load_image example_env (Array 0) example_heap
            = (Inr 1, snd (alloc (cells example_heap 0) example_heap))"
    by (simp add: load_image_def alloc_def validate_image_def example_heap_def example_image_def
        ndim_def size_of_def)
  from C4_tier_case_text_only[of "''HIGH''" ALPHABETS "PyStr (str ''abcdefgh'')" "''english''"
      "fresh_world (\<lambda>i. 3)"] l
  have t: "add_char_noise ALPHABETS (PyStr (str ''abcdefgh'')) ''HIGH'' ''english'' (fresh_world (\<lambda>i. 3))
       = add_char_noise ALPHABETS (PyStr (str ''abcdefgh'')) ''high'' ''english'' (fresh_world (\<lambda>i. 3))"
    and f: "NOISE_LEVEL_PERCENTAGES (lower ''HIGH'') = Some 0.25"
    and b: "blur_sigma ''HIGH'' = Inl ValueError" and o: "occlusion_ratio ''HIGH'' = Inl ValueError"
    and calls: "\<forall>e img_input h img h1 w'. load_image e img_input h = (Inr img, h1) \<longrightarrow>
                 apply_gaussian_blur e img_input ''HIGH'' h = (Inl ValueError, h1)
               \<and> apply_occlusion e img_input ''HIGH'' h w' = (Inl ValueError, h1, w')"
    by simp_all
  from calls[rule_format, OF ld, of "fresh_world (\<lambda>i. 0)"]
  have "fst (apply_gaussian_blur example_env (Array 0) ''HIGH'' example_heap) = Inl ValueError"
    and "fst (apply_occlusion example_env (Array 0) ''HIGH'' example_heap (fresh_world (\<lambda>i. 0)))
       = Inl ValueError"
    by simp_all
  with l t f b o show ?thesis by simp
qed

text \<open>
  The claim as first stated has the image functions fold the case as well. On the example
  image the blur succeeds at \<open>low\<close>, and \<open>Low\<close>, a casing variant of it, makes both image
  functions raise ValueError.
\<close>

theorem C4_image_tier_counterexample:
  "lower ''Low'' = ''low''
   \<and> fst (apply_gaussian_blur example_env (Array 0) ''low'' example_heap) = Inr 2
   \<and> fst (apply_gaussian_blur example_env (Array 0) ''Low'' example_heap) = Inl ValueError
   \<and> occlusion_ratio ''low'' = Inr 0.08
   \<and> fst (apply_occlusion example_env (Array 0) ''Low'' example_heap (fresh_world (\<lambda>i. 0)))
       = Inl ValueError"
  by (simp add: lower_def lower_char_def ascii_uppercase_def ascii_lowercase_def
      apply_gaussian_blur_def apply_occlusion_def load_image_def alloc_def validate_image_def
      example_heap_def example_image_def ndim_def size_of_def blur_sigma_def occlusion_ratio_def)


end
